theory Spec2Isabelle
  imports Main "HOL-Library.Sublist"
begin

section \<open>JavaScript values and string primitives\<close>

text \<open>
  The fields of a spot and the \<^verbatim>\<open>value\<close> of a filter condition are JSON data: a string,
  \<^verbatim>\<open>null\<close>, or missing (\<^verbatim>\<open>undefined\<close>). Strings are character lists. The built-ins
  \<^verbatim>\<open>toLowerCase\<close>, \<^verbatim>\<open>toUpperCase\<close> and \<^verbatim>\<open>trim\<close> are written out for ASCII text
  (call signs, modes, park references, frequencies): letters \<^verbatim>\<open>A-Z\<close>/\<^verbatim>\<open>a-z\<close> change case,
  every other character is kept, and the white space removed by \<^verbatim>\<open>trim\<close> is the ASCII
  white space (codes 9 to 13 and 32).
\<close>

datatype jsval = JUndefined | JNull | JString string

text \<open>Truthiness: \<^verbatim>\<open>undefined\<close>, \<^verbatim>\<open>null\<close> and the empty string are falsy.\<close>

fun truthy :: "jsval \<Rightarrow> bool" where
  "truthy JUndefined = False"
| "truthy JNull = False"
| "truthy (JString s) = (s \<noteq> [])"

text \<open>\<^verbatim>\<open>String(a)\<close>.\<close>

fun toString :: "jsval \<Rightarrow> string" where
  "toString JUndefined = ''undefined''"
| "toString JNull = ''null''"
| "toString (JString s) = s"

text \<open>\<^verbatim>\<open>v || ''\<close>.\<close>

definition orEmpty :: "jsval \<Rightarrow> jsval" where
  "orEmpty v = (if truthy v then v else JString [])"

definition lowerChar :: "char \<Rightarrow> char" where
  "lowerChar c =
     (let n = (of_char c :: nat) in if 65 \<le> n \<and> n \<le> 90 then char_of (n + 32) else c)"

definition upperChar :: "char \<Rightarrow> char" where
  "upperChar c =
     (let n = (of_char c :: nat) in if 97 \<le> n \<and> n \<le> 122 then char_of (n - 32) else c)"

definition toLowerCase :: "string \<Rightarrow> string" where
  "toLowerCase s = map lowerChar s"

definition toUpperCase :: "string \<Rightarrow> string" where
  "toUpperCase s = map upperChar s"

definition isSpace :: "char \<Rightarrow> bool" where
  "isSpace c = (let n = (of_char c :: nat) in (9 \<le> n \<and> n \<le> 13) \<or> n = 32)"

definition trim :: "string \<Rightarrow> string" where
  "trim s = rev (dropWhile isSpace (rev (dropWhile isSpace s)))"

text \<open>\<^verbatim>\<open>text.includes(pattern)\<close>: the pattern occurs at some position of the text.\<close>

fun includes_str :: "string \<Rightarrow> string \<Rightarrow> bool" where
  "includes_str [] p = (p = [])"
| "includes_str (x # xs) p = (prefix p (x # xs) \<or> includes_str xs p)"

text \<open>\<^verbatim>\<open>callsign.split('/')[0]\<close>: the part before the first slash.\<close>

definition beforeSlash :: "string \<Rightarrow> string" where
  "beforeSlash s = takeWhile (\<lambda>c. c \<noteq> CHR ''/'') s"


section \<open>filter.js\<close>

text \<open>
  A filter condition. \<^verbatim>\<open>exclude\<close> is only ever tested for truthiness, so a missing flag
  is \<open>False\<close>; \<^verbatim>\<open>enabled\<close> is compared with \<^verbatim>\<open>!== false\<close>, so a missing flag
  (\<open>None\<close>) counts as enabled.
\<close>

record condition =
  cvalue :: jsval
  type :: string
  exclude :: bool
  enabled :: "bool option"

record fieldFilter =
  conditions :: "condition list option"
  operator :: "string option"

record spot =
  spotId :: int
  activator :: jsval
  spotter :: jsval
  reference :: jsval
  comments :: jsval
  mode :: jsval
  frequency :: jsval

record filterConfig =
  reference :: "fieldFilter option"
  comments :: "fieldFilter option"
  mode :: "fieldFilter option"
  frequency :: "fieldFilter option"
  ignoreOtherSpotters :: bool
  notificationSoundPath :: "string option"
  maxNotificationCount :: int
  maxPopupCount :: int

definition caseInsensitiveEquals :: "jsval \<Rightarrow> jsval \<Rightarrow> bool" where
  "caseInsensitiveEquals a b =
     (if a = JNull \<or> a = JUndefined \<or> b = JNull \<or> b = JUndefined then False
      else toLowerCase (toString a) = toLowerCase (toString b))"

definition caseInsensitiveContains :: "jsval \<Rightarrow> jsval \<Rightarrow> bool" where
  "caseInsensitiveContains text pattern =
     (if text = JNull \<or> text = JUndefined \<or> pattern = JNull \<or> pattern = JUndefined then False
      else includes_str (toLowerCase (toString text)) (toLowerCase (toString pattern)))"

definition normalizeCallsign :: "jsval \<Rightarrow> string" where
  "normalizeCallsign callsign =
     (case callsign of
        JString s \<Rightarrow> (if s = [] then [] else toUpperCase (trim (beforeSlash s)))
      | _ \<Rightarrow> [])"

definition callsignsMatch :: "jsval \<Rightarrow> jsval \<Rightarrow> bool" where
  "callsignsMatch act spo =
     (if \<not> truthy act \<or> \<not> truthy spo then False
      else normalizeCallsign act = normalizeCallsign spo)"

definition checkConditionMatch :: "jsval \<Rightarrow> condition \<Rightarrow> bool" where
  "checkConditionMatch fieldValue c =
     (if \<not> truthy (cvalue c) then False
      else if type c = ''exact'' then caseInsensitiveEquals fieldValue (cvalue c)
      else if type c = ''contains'' then caseInsensitiveContains fieldValue (cvalue c)
      else False)"

text \<open>The two selections of conditions made with \<^verbatim>\<open>conditions.filter\<close>.\<close>

definition isInclude :: "condition \<Rightarrow> bool" where
  "isInclude c = (\<not> exclude c \<and> enabled c \<noteq> Some False)"

definition isExclude :: "condition \<Rightarrow> bool" where
  "isExclude c = (exclude c \<and> enabled c \<noteq> Some False)"

text \<open>\<^verbatim>\<open>fieldFilter.operator || 'or'\<close>.\<close>

definition operatorOf :: "fieldFilter \<Rightarrow> string" where
  "operatorOf ff = (case operator ff of None \<Rightarrow> ''or'' | Some s \<Rightarrow> if s = [] then ''or'' else s)"

definition applyFieldFilter :: "jsval \<Rightarrow> fieldFilter option \<Rightarrow> bool" where
  "applyFieldFilter fieldValue fieldFilter =
     (case fieldFilter of
        None \<Rightarrow> True
      | Some ff \<Rightarrow>
          (case conditions ff of
             None \<Rightarrow> True
           | Some cs \<Rightarrow>
               if cs = [] then True
               else let includeConditions = filter isInclude cs in
                 if includeConditions = [] then True
                 else if operatorOf ff = ''and''
                   then list_all (checkConditionMatch fieldValue) includeConditions
                   else list_ex (checkConditionMatch fieldValue) includeConditions))"

text \<open>
  The tracked fields, in the order of the array \<^verbatim>\<open>fields\<close> of \<^verbatim>\<open>applyFilter\<close>
  (every record type already has a constant of that name).
\<close>

datatype field = Reference | Comments | Mode | Frequency

definition trackedFields :: "field list" where
  "trackedFields = [Reference, Comments, Mode, Frequency]"

text \<open>\<^verbatim>\<open>filterConfig[field]\<close> and \<^verbatim>\<open>spot[field]\<close>.\<close>

fun configField :: "filterConfig \<Rightarrow> field \<Rightarrow> fieldFilter option" where
  "configField cfg Reference = filterConfig.reference cfg"
| "configField cfg Comments = filterConfig.comments cfg"
| "configField cfg Mode = filterConfig.mode cfg"
| "configField cfg Frequency = filterConfig.frequency cfg"

fun spotField :: "spot \<Rightarrow> field \<Rightarrow> jsval" where
  "spotField s Reference = spot.reference s"
| "spotField s Comments = spot.comments s"
| "spotField s Mode = spot.mode s"
| "spotField s Frequency = spot.frequency s"

text \<open>
  The body of the loop over \<^verbatim>\<open>fields\<close>: some enabled exclude condition of the field
  matches. The loops only return early, so the exclude pass rejects exactly when this holds
  for some field.
\<close>

definition excludeHit :: "spot \<Rightarrow> filterConfig \<Rightarrow> field \<Rightarrow> bool" where
  "excludeHit s cfg f =
     (case configField cfg f of
        None \<Rightarrow> False
      | Some ff \<Rightarrow>
          (case conditions ff of
             None \<Rightarrow> False
           | Some cs \<Rightarrow>
               list_ex (checkConditionMatch (orEmpty (spotField s f))) (filter isExclude cs)))"

definition applyFilter :: "spot \<Rightarrow> filterConfig option \<Rightarrow> bool" where
  "applyFilter s filterConfig =
     (case filterConfig of
        None \<Rightarrow> True
      | Some cfg \<Rightarrow>
          if ignoreOtherSpotters cfg \<and> \<not> callsignsMatch (activator s) (spotter s) then False
          else if list_ex (excludeHit s cfg) trackedFields then False
          else
            let referencePass = applyFieldFilter (orEmpty (spot.reference s)) (filterConfig.reference cfg);
                commentsPass = applyFieldFilter (orEmpty (spot.comments s)) (filterConfig.comments cfg);
                modePass = applyFieldFilter (orEmpty (spot.mode s)) (filterConfig.mode cfg);
                frequencyPass = applyFieldFilter (orEmpty (spot.frequency s)) (filterConfig.frequency cfg)
            in referencePass \<and> commentsPass \<and> modePass \<and> frequencyPass)"


section \<open>voicevox.js: the speech queue\<close>

text \<open>
  What the program does to the outside world is recorded as a list of effects, in the order
  in which they happen. The outside world itself is a record:
  \<^item> \<open>audioTarget\<close>: \<^verbatim>\<open>getAudioTargetWebContents()\<close> finds a window;
  \<^item> \<open>notificationSupported\<close>: \<^verbatim>\<open>Notification.isSupported()\<close>;
  \<^item> \<open>soundFileReadable\<close>: \<^verbatim>\<open>playSoundFromPath\<close> resolves (the file exists and is read);
  \<^item> \<open>voicevox\<close>: what \<^verbatim>\<open>loadVoicevoxSettings\<close> returns (it never throws);
  \<^item> \<open>synthesize i\<close>: how the call of \<^verbatim>\<open>synthesizeVoicevox\<close> for position \<open>i\<close> of a
    speech queue ends;
  \<^item> \<open>playback i\<close>: whether the promise of the audio playback for position \<open>i\<close>
    resolves (\<^verbatim>\<open>onended\<close>) rather than rejects.

  The text that \<^verbatim>\<open>generateVoicevoxText\<close> renders for a spot is not needed below: a
  synthesis request is recorded with the spot it is for.
\<close>

text \<open>
  The result object of \<^verbatim>\<open>synthesizeVoicevox\<close>: \<^verbatim>\<open>{success: true, audioData}\<close>, or
  \<^verbatim>\<open>{success: false, error}\<close> from its \<^verbatim>\<open>catch\<close> block, which every failure of the two
  HTTP requests reaches (connection error, HTTP status, request timeout).
\<close>

datatype synthResult = SynthOk string | SynthFail string

text \<open>The settings that steer the queue; the voice parameters do not.\<close>

record voicevoxSettings =
  speakerId :: "int option"
  maxSpotsPerRead :: int

record env =
  audioTarget :: bool
  notificationSupported :: bool
  soundFileReadable :: bool
  voicevox :: voicevoxSettings
  synthesize :: "nat \<Rightarrow> synthResult"
  playback :: "nat \<Rightarrow> bool"

datatype effect =
    SoundPlayed string
  | SoundErrorLogged
  | NotificationShown spot
  | PopupShown spot
  | NoSpeakerLogged
  | SynthesisRequested spot
  | VoicePlayed spot
  | SynthesisErrorLogged string
  | SpeechExceptionLogged

text \<open>
  The \<^verbatim>\<open>for\<close> loop of \<^verbatim>\<open>speakMultipleSpotsWithVoicevox\<close>, from queue position \<open>i\<close>.
  A failed synthesis is logged and the loop goes on. A playback whose promise rejects
  throws out of the loop into the \<^verbatim>\<open>catch\<close> of the function, which logs and returns.
\<close>

fun speakLoop :: "env \<Rightarrow> bool \<Rightarrow> nat \<Rightarrow> spot list \<Rightarrow> effect list" where
  "speakLoop e target i [] = []"
| "speakLoop e target i (s # rest) =
     SynthesisRequested s #
     (case synthesize e i of
        SynthOk audioData \<Rightarrow>
          if audioData \<noteq> [] \<and> target then
            (if playback e i then VoicePlayed s # speakLoop e target (Suc i) rest
             else [SpeechExceptionLogged])
          else speakLoop e target (Suc i) rest
      | SynthFail err \<Rightarrow> SynthesisErrorLogged err # speakLoop e target (Suc i) rest)"

text \<open>\<^verbatim>\<open>!voicevoxSettings.speakerId\<close>: no speaker, or the speaker with id 0.\<close>

definition noSpeaker :: "voicevoxSettings \<Rightarrow> bool" where
  "noSpeaker vs = (speakerId vs = None \<or> speakerId vs = Some 0)"

definition spotsToRead :: "voicevoxSettings \<Rightarrow> spot list \<Rightarrow> spot list" where
  "spotsToRead vs spots =
     (if maxSpotsPerRead vs > 0 then take (nat (maxSpotsPerRead vs)) spots else spots)"

definition speakMultipleSpotsWithVoicevox :: "env \<Rightarrow> spot list \<Rightarrow> bool \<Rightarrow> bool \<Rightarrow> effect list" where
  "speakMultipleSpotsWithVoicevox e spots voicevoxEnabled target =
     (if \<not> voicevoxEnabled \<or> spots = [] then []
      else if noSpeaker (voicevox e) then [NoSpeakerLogged]
      else speakLoop e target 0 (spotsToRead (voicevox e) spots))"


section \<open>main.js: novelty index and dispatch\<close>

record notificationSettings =
  notificationEnabled :: bool
  popupEnabled :: bool
  soundEnabled :: bool
  voicevoxEnabled :: bool

text \<open>
  \<^verbatim>\<open>knownSpotIds\<close> is a JavaScript \<^verbatim>\<open>Set\<close>, which iterates in insertion order: a list
  of identities, oldest first, that \<^verbatim>\<open>add\<close> extends at the end. The first loop of
  \<^verbatim>\<open>processSpots\<close> carries the index and \<^verbatim>\<open>filteredSpots\<close>.
\<close>

fun scanSpots :: "filterConfig option \<Rightarrow> spot list \<Rightarrow> int list \<times> spot list \<Rightarrow> int list \<times> spot list" where
  "scanSpots cfg [] (known, filteredSpots) = (known, filteredSpots)"
| "scanSpots cfg (s # rest) (known, filteredSpots) =
     (if spotId s \<notin> set known then
        scanSpots cfg rest
          (known @ [spotId s],
           if cfg \<noteq> None \<and> applyFilter s cfg then filteredSpots @ [s] else filteredSpots)
      else scanSpots cfg rest (known, filteredSpots))"

text \<open>\<^verbatim>\<open>Boolean(filterConfig?.notificationSoundPath)\<close>.\<close>

definition hasCustomSound :: "filterConfig option \<Rightarrow> bool" where
  "hasCustomSound cfg =
     (case cfg of
        None \<Rightarrow> False
      | Some c \<Rightarrow> (case notificationSoundPath c of None \<Rightarrow> False | Some p \<Rightarrow> p \<noteq> []))"

text \<open>\<^verbatim>\<open>playNotificationSound()\<close> with no argument: the configured sound.\<close>

definition playNotificationSound :: "filterConfig option \<Rightarrow> env \<Rightarrow> effect list" where
  "playNotificationSound cfg e =
     (case (case cfg of None \<Rightarrow> None | Some c \<Rightarrow> notificationSoundPath c) of
        None \<Rightarrow> []
      | Some soundPath \<Rightarrow>
          if soundPath = [] then []
          else if \<not> audioTarget e then [SoundErrorLogged]
          else if soundFileReadable e then [SoundPlayed soundPath]
          else [SoundErrorLogged])"

definition handleNotificationSound :: "notificationSettings \<Rightarrow> filterConfig option \<Rightarrow> env \<Rightarrow> effect list" where
  "handleNotificationSound ns cfg e =
     (if \<not> soundEnabled ns then []
      else if \<not> hasCustomSound cfg then []
      else playNotificationSound cfg e)"

definition showNotification :: "notificationSettings \<Rightarrow> env \<Rightarrow> spot \<Rightarrow> effect list" where
  "showNotification ns e s =
     (if \<not> notificationEnabled ns then []
      else if notificationSupported e then [NotificationShown s]
      else [])"

definition showPopupNotification :: "notificationSettings \<Rightarrow> spot \<Rightarrow> effect list" where
  "showPopupNotification ns s = (if \<not> popupEnabled ns then [] else [PopupShown s])"

text \<open>
  The calls that \<^verbatim>\<open>processSpots\<close> issues for a batch, in order: what each channel is
  handed. \<^verbatim>\<open>filterConfig?.maxNotificationCount || 0\<close> is 0 without a configuration.
\<close>

datatype call =
    HandleNotificationSound
  | ShowNotification spot
  | ShowPopupNotification spot
  | SpeakMultipleSpotsWithVoicevox "spot list"

definition notificationSpots :: "filterConfig option \<Rightarrow> spot list \<Rightarrow> spot list" where
  "notificationSpots cfg filteredSpots =
     (let maxNotificationCount = (case cfg of None \<Rightarrow> 0 | Some c \<Rightarrow> maxNotificationCount c)
      in if maxNotificationCount > 0 then take (nat maxNotificationCount) filteredSpots
         else filteredSpots)"

definition popupSpots :: "filterConfig option \<Rightarrow> spot list \<Rightarrow> spot list" where
  "popupSpots cfg filteredSpots =
     (let maxPopupCount = (case cfg of None \<Rightarrow> 0 | Some c \<Rightarrow> maxPopupCount c)
      in if maxPopupCount > 0 then take (nat maxPopupCount) filteredSpots
         else filteredSpots)"

definition dispatch :: "filterConfig option \<Rightarrow> env \<Rightarrow> spot list \<Rightarrow> call list" where
  "dispatch cfg e filteredSpots =
     (if filteredSpots = [] then []
      else
        [HandleNotificationSound]
        @ map ShowNotification (notificationSpots cfg filteredSpots)
        @ map ShowPopupNotification (popupSpots cfg filteredSpots)
        @ (if audioTarget e then [SpeakMultipleSpotsWithVoicevox filteredSpots] else []))"

text \<open>What each call does.\<close>

fun perform :: "notificationSettings \<Rightarrow> filterConfig option \<Rightarrow> env \<Rightarrow> call \<Rightarrow> effect list" where
  "perform ns cfg e HandleNotificationSound = handleNotificationSound ns cfg e"
| "perform ns cfg e (ShowNotification s) = showNotification ns e s"
| "perform ns cfg e (ShowPopupNotification s) = showPopupNotification ns s"
| "perform ns cfg e (SpeakMultipleSpotsWithVoicevox spots) =
     speakMultipleSpotsWithVoicevox e spots (voicevoxEnabled ns) (audioTarget e)"

text \<open>
  The last statement of \<^verbatim>\<open>processSpots\<close>: \<^verbatim>\<open>Array.from(knownSpotIds).slice(-1000)\<close>
  when the index holds more than 1000 identities.
\<close>

definition evict :: "int list \<Rightarrow> int list" where
  "evict known = (if length known > 1000 then drop (length known - 1000) known else known)"

text \<open>
  \<^verbatim>\<open>processSpots\<close>: the new index and the effects of the batch. The globals
  \<^verbatim>\<open>notificationSettings\<close>, \<^verbatim>\<open>filterConfig\<close> and \<^verbatim>\<open>knownSpotIds\<close> are arguments.
\<close>

definition processSpots ::
  "notificationSettings \<Rightarrow> filterConfig option \<Rightarrow> env \<Rightarrow> int list \<Rightarrow> spot list
     \<Rightarrow> int list \<times> effect list" where
  "processSpots ns cfg e known spots =
     (let (known', filteredSpots) = scanSpots cfg spots (known, [])
      in (evict known', concat (map (perform ns cfg e) (dispatch cfg e filteredSpots))))"

text \<open>
  Successive polls: \<^verbatim>\<open>checkForNewSpots\<close> passes each fetched batch to
  \<^verbatim>\<open>processSpots\<close>, which leaves the index for the next one.
\<close>

fun pollAll ::
  "notificationSettings \<Rightarrow> filterConfig option \<Rightarrow> env \<Rightarrow> int list \<Rightarrow> spot list list
     \<Rightarrow> int list \<times> effect list" where
  "pollAll ns cfg e known [] = (known, [])"
| "pollAll ns cfg e known (batch # batches) =
     (let (known', effects) = processSpots ns cfg e known batch;
          (known'', effects') = pollAll ns cfg e known' batches
      in (known'', effects @ effects'))"


section \<open>Reading the calls and the effects\<close>

text \<open>Predicates that pick the calls and effects of one channel out of a list.\<close>

fun isShowNotification :: "call \<Rightarrow> bool" where
  "isShowNotification (ShowNotification s) = True"
| "isShowNotification _ = False"

fun isShowPopupNotification :: "call \<Rightarrow> bool" where
  "isShowPopupNotification (ShowPopupNotification s) = True"
| "isShowPopupNotification _ = False"

fun isNotificationShown :: "effect \<Rightarrow> bool" where
  "isNotificationShown (NotificationShown s) = True"
| "isNotificationShown _ = False"

fun isPopupShown :: "effect \<Rightarrow> bool" where
  "isPopupShown (PopupShown s) = True"
| "isPopupShown _ = False"

fun isSound :: "effect \<Rightarrow> bool" where
  "isSound (SoundPlayed p) = True"
| "isSound SoundErrorLogged = True"
| "isSound _ = False"

fun isSynthesisRequested :: "effect \<Rightarrow> bool" where
  "isSynthesisRequested (SynthesisRequested s) = True"
| "isSynthesisRequested _ = False"

fun isSpeech :: "effect \<Rightarrow> bool" where
  "isSpeech NoSpeakerLogged = True"
| "isSpeech (SynthesisRequested s) = True"
| "isSpeech (VoicePlayed s) = True"
| "isSpeech (SynthesisErrorLogged err) = True"
| "isSpeech SpeechExceptionLogged = True"
| "isSpeech _ = False"


section \<open>First sightings\<close>

text \<open>
  The records of a batch that the novelty index lets through, said without the loop: the
  record at position \<open>i\<close> counts when its identity is neither in the index at the start of
  the batch nor the identity of an earlier record of the batch.
\<close>

definition firstSightings :: "int list \<Rightarrow> spot list \<Rightarrow> spot list" where
  "firstSightings known spots =
     map (\<lambda>i. spots ! i)
       (filter (\<lambda>i. spotId (spots ! i) \<notin> set known \<union> spotId ` set (take i spots))
          [0..<length spots])"


section \<open>Sample data\<close>

text \<open>The configuration that \<^verbatim>\<open>loadConfig\<close> uses when no file exists.\<close>

definition defaultConfig :: filterConfig where
  "defaultConfig =
     \<lparr>filterConfig.reference = Some \<lparr>conditions = Some [], operator = Some ''or''\<rparr>,
      filterConfig.comments = Some \<lparr>conditions = Some [], operator = Some ''or''\<rparr>,
      filterConfig.mode = Some \<lparr>conditions = Some [], operator = Some ''or''\<rparr>,
      filterConfig.frequency = Some \<lparr>conditions = Some [], operator = Some ''or''\<rparr>,
      ignoreOtherSpotters = False,
      notificationSoundPath = None,
      maxNotificationCount = 0,
      maxPopupCount = 0\<rparr>"

definition cwSpot :: spot where
  "cwSpot =
     \<lparr>spotId = 1, activator = JString ''JK1AZT/1'', spotter = JString ''W1AW'',
      spot.reference = JString ''JP-0001'', spot.comments = JNull,
      spot.mode = JString ''CW'', spot.frequency = JString ''7030''\<rparr>"

definition cwExclude :: condition where
  "cwExclude = \<lparr>cvalue = JString ''cw'', type = ''exact'', exclude = True, enabled = None\<rparr>"

definition cwInclude :: condition where
  "cwInclude =
     \<lparr>cvalue = JString ''CW'', type = ''contains'', exclude = False, enabled = Some True\<rparr>"

definition cwConfig :: filterConfig where
  "cwConfig = defaultConfig
     \<lparr>filterConfig.mode :=
        Some \<lparr>conditions = Some [cwExclude, cwInclude], operator = Some ''and''\<rparr>\<rparr>"

definition ft8Disabled :: condition where
  "ft8Disabled =
     \<lparr>cvalue = JString ''ft8'', type = ''exact'', exclude = False, enabled = Some False\<rparr>"

definition regexExclude :: condition where
  "regexExclude = \<lparr>cvalue = JString ''CW'', type = ''regex'', exclude = True, enabled = Some True\<rparr>"

definition regexConfig :: filterConfig where
  "regexConfig = defaultConfig
     \<lparr>filterConfig.mode := Some \<lparr>conditions = Some [regexExclude], operator = Some ''or''\<rparr>\<rparr>"

definition ownSpotsConfig :: filterConfig where
  "ownSpotsConfig = defaultConfig\<lparr>ignoreOtherSpotters := True\<rparr>"

definition noCallsignSpot :: spot where
  "noCallsignSpot = cwSpot\<lparr>activator := JString '''', spotter := JString ''''\<rparr>"

definition spotWithId :: "int \<Rightarrow> spot" where
  "spotWithId i = cwSpot\<lparr>spotId := i\<rparr>"

definition allEnabled :: notificationSettings where
  "allEnabled =
     \<lparr>notificationEnabled = True, popupEnabled = True, soundEnabled = True,
      voicevoxEnabled = True\<rparr>"

text \<open>A world where everything works, except that the second synthesis of a queue times out.\<close>

definition sampleEnv :: env where
  "sampleEnv =
     \<lparr>audioTarget = True, notificationSupported = True, soundFileReadable = True,
      voicevox = \<lparr>speakerId = Some 3, maxSpotsPerRead = 0\<rparr>,
      synthesize = (\<lambda>i. if i = 1 then SynthFail ''Request timeout'' else SynthOk ''UklGRg==''),
      playback = (\<lambda>i. True)\<rparr>"

definition capsConfig :: filterConfig where
  "capsConfig = defaultConfig\<lparr>maxNotificationCount := 1, maxPopupCount := 3\<rparr>"

definition soundConfig :: filterConfig where
  "soundConfig = defaultConfig\<lparr>notificationSoundPath := Some ''C:/sounds/spot.wav''\<rparr>"

definition rejectAllConfig :: filterConfig where
  "rejectAllConfig = soundConfig
     \<lparr>filterConfig.mode :=
        Some \<lparr>conditions = Some [cwExclude], operator = Some ''or''\<rparr>\<rparr>"

text \<open>A feed of 1001 records with the identities 0 to 1000.\<close>

definition fullFeed :: "spot list" where
  "fullFeed = map spotWithId [0..1000]"

definition cwSpot2 :: spot where
  "cwSpot2 = cwSpot\<lparr>spotId := 2\<rparr>"

definition ssbSpot2 :: spot where
  "ssbSpot2 = cwSpot\<lparr>spotId := 2, spot.mode := JString ''SSB''\<rparr>"


section \<open>Properties of the filter\<close>

lemma field_in_fields: "f \<in> set trackedFields"
  by (cases f) (simp_all add: trackedFields_def)

lemma checkConditionMatch_orEmpty:
  "checkConditionMatch v c \<Longrightarrow> checkConditionMatch (orEmpty v) c"
  by (cases v) (auto simp: orEmpty_def checkConditionMatch_def caseInsensitiveEquals_def
      caseInsensitiveContains_def split: if_splits)

lemma excludeHit_I:
  assumes "configField cfg f = Some ff" and "conditions ff = Some cs" and "c \<in> set cs"
    and "isExclude c" and "checkConditionMatch (orEmpty (spotField s f)) c"
  shows "excludeHit s cfg f"
  using assms by (auto simp: excludeHit_def list_ex_iff)

lemma unknown_type_no_match:
  "type c \<noteq> ''exact'' \<Longrightarrow> type c \<noteq> ''contains'' \<Longrightarrow> \<not> checkConditionMatch v c"
  by (simp add: checkConditionMatch_def)


subsection \<open>Exclude conditions veto\<close>

text \<open>
  Claim C1. Whenever some condition of a tracked field has \<^verbatim>\<open>exclude\<close> set, is not
  disabled, and matches the value of that field in the record, \<^verbatim>\<open>applyFilter\<close> rejects
  the record: whatever the operator of the field is, and whatever the include conditions
  of this or any other field say.
\<close>

theorem exclude_rejects:
  assumes "configField cfg f = Some ff" and "conditions ff = Some cs" and "c \<in> set cs"
    and "exclude c" and "enabled c \<noteq> Some False"
    and "checkConditionMatch (spotField s f) c"
  shows "\<not> applyFilter s (Some cfg)"
proof -
  have "isExclude c" using assms(4,5) by (simp add: isExclude_def)
  moreover have "checkConditionMatch (orEmpty (spotField s f)) c"
    using assms(6) by (rule checkConditionMatch_orEmpty)
  ultimately have "excludeHit s cfg f"
    using assms(1-3) by (blast intro: excludeHit_I)
  then have "list_ex (excludeHit s cfg) trackedFields"
    using field_in_fields [of f] by (auto simp: list_ex_iff)
  then show ?thesis by (simp add: applyFilter_def)
qed

text \<open>
  A record in mode CW against a mode filter with an exclude condition for CW and an
  include condition \<^verbatim>\<open>contains "CW"\<close>: the include side passes, the record is rejected.
\<close>

theorem exclude_rejects_witness:
  "applyFieldFilter (orEmpty (spot.mode cwSpot)) (filterConfig.mode cwConfig)
   \<and> \<not> applyFilter cwSpot (Some cwConfig)"
proof -
  have h1: "configField cwConfig Mode
      = Some \<lparr>conditions = Some [cwExclude, cwInclude], operator = Some ''and''\<rparr>"
    by (simp add: cwConfig_def)
  have h2: "conditions \<lparr>conditions = Some [cwExclude, cwInclude], operator = Some ''and''\<rparr>
      = Some [cwExclude, cwInclude]"
    by simp
  have h3: "cwExclude \<in> set [cwExclude, cwInclude]" by simp
  have h4: "exclude cwExclude" by (simp add: cwExclude_def)
  have h5: "enabled cwExclude \<noteq> Some False" by (simp add: cwExclude_def)
  have h6: "checkConditionMatch (spotField cwSpot Mode) cwExclude" by code_simp
  have inc: "applyFieldFilter (orEmpty (spot.mode cwSpot)) (filterConfig.mode cwConfig)"
    by code_simp
  show ?thesis using inc exclude_rejects [OF h1 h2 h3 h4 h5 h6] by simp
qed

subsection \<open>A field without enabled include conditions is open\<close>

text \<open>
  Claim C9. \<^verbatim>\<open>applyFieldFilter\<close> returns true for every field value when the field filter
  is absent, has no condition list or an empty one, or has no enabled include condition:
  every condition is disabled or is an exclude condition.
\<close>

theorem applyFieldFilter_open:
  assumes "fieldFilter = None
     \<or> (\<exists>ff. fieldFilter = Some ff
          \<and> (conditions ff = None
              \<or> (\<exists>cs. conditions ff = Some cs
                    \<and> (\<forall>c \<in> set cs. exclude c \<or> enabled c = Some False))))"
  shows "applyFieldFilter fieldValue fieldFilter"
proof -
  have "filter isInclude cs = []" if "\<forall>c \<in> set cs. exclude c \<or> enabled c = Some False" for cs
    using that by (auto simp: filter_empty_conv isInclude_def)
  then show ?thesis
    using assms by (auto simp: applyFieldFilter_def Let_def)
qed

theorem applyFieldFilter_open_witness:
  "applyFieldFilter (JString ''SSB'') None
   \<and> applyFieldFilter (JString ''SSB'') (Some \<lparr>conditions = None, operator = None\<rparr>)
   \<and> applyFieldFilter (JString ''SSB'') (Some \<lparr>conditions = Some [], operator = Some ''and''\<rparr>)
   \<and> applyFieldFilter (JString ''SSB'')
        (Some \<lparr>conditions = Some [ft8Disabled, cwExclude], operator = Some ''and''\<rparr>)"
proof -
  have "\<forall>c \<in> set [ft8Disabled, cwExclude]. exclude c \<or> enabled c = Some False"
    by (simp add: ft8Disabled_def cwExclude_def)
  then show ?thesis
    using applyFieldFilter_open [of None "JString ''SSB''"]
      applyFieldFilter_open [of "Some \<lparr>conditions = None, operator = None\<rparr>" "JString ''SSB''"]
      applyFieldFilter_open [of "Some \<lparr>conditions = Some [], operator = Some ''and''\<rparr>"
        "JString ''SSB''"]
      applyFieldFilter_open [of
        "Some \<lparr>conditions = Some [ft8Disabled, cwExclude], operator = Some ''and''\<rparr>"
        "JString ''SSB''"]
    by simp
qed

subsection \<open>Conditions of an unknown type\<close>

text \<open>
  Claim C10. A condition whose type is neither \<^verbatim>\<open>exact\<close> nor \<^verbatim>\<open>contains\<close> matches no
  field value. So a field whose enabled include conditions all have such a type lets no
  value pass, under either operator, and the exclude pass never rejects a record on
  account of such conditions, enabled and with \<^verbatim>\<open>exclude\<close> set as they may be.
\<close>

theorem unknown_type_inert:
  "(type c \<noteq> ''exact'' \<and> type c \<noteq> ''contains'' \<longrightarrow> \<not> checkConditionMatch v c)
   \<and> (conditions ff = Some cs \<and> (\<exists>c \<in> set cs. isInclude c)
        \<and> (\<forall>c \<in> set cs. isInclude c \<longrightarrow> type c \<noteq> ''exact'' \<and> type c \<noteq> ''contains'')
      \<longrightarrow> \<not> applyFieldFilter v (Some ff))
   \<and> (configField cfg f = Some ff \<and> conditions ff = Some cs
        \<and> (\<forall>c \<in> set cs. isExclude c \<longrightarrow> type c \<noteq> ''exact'' \<and> type c \<noteq> ''contains'')
      \<longrightarrow> \<not> excludeHit s cfg f)"
proof (intro conjI impI)
  assume "type c \<noteq> ''exact'' \<and> type c \<noteq> ''contains''"
  then show "\<not> checkConditionMatch v c" by (simp add: unknown_type_no_match)
next
  assume a: "conditions ff = Some cs \<and> (\<exists>c \<in> set cs. isInclude c)
        \<and> (\<forall>c \<in> set cs. isInclude c \<longrightarrow> type c \<noteq> ''exact'' \<and> type c \<noteq> ''contains'')"
  then have ne: "filter isInclude cs \<noteq> []" and cs: "cs \<noteq> []"
    by (auto simp: filter_empty_conv)
  have no: "\<forall>c \<in> set (filter isInclude cs). \<not> checkConditionMatch v c"
    using a by (auto simp: unknown_type_no_match)
  have "\<not> list_ex (checkConditionMatch v) (filter isInclude cs)"
    using no by (simp add: list_ex_iff)
  moreover have "\<not> list_all (checkConditionMatch v) (filter isInclude cs)"
    using no ne by (cases "filter isInclude cs") (auto simp: list_all_iff)
  ultimately show "\<not> applyFieldFilter v (Some ff)"
    using a ne cs by (simp add: applyFieldFilter_def Let_def)
next
  assume a: "configField cfg f = Some ff \<and> conditions ff = Some cs
        \<and> (\<forall>c \<in> set cs. isExclude c \<longrightarrow> type c \<noteq> ''exact'' \<and> type c \<noteq> ''contains'')"
  then have "\<forall>c \<in> set (filter isExclude cs). \<not> checkConditionMatch (orEmpty (spotField s f)) c"
    by (auto simp: unknown_type_no_match)
  then show "\<not> excludeHit s cfg f"
    using a by (simp add: excludeHit_def list_ex_iff)
qed

theorem unknown_type_inert_witness:
  "\<not> checkConditionMatch (JString ''CW'') regexExclude
   \<and> \<not> applyFieldFilter (JString ''CW'')
         (Some \<lparr>conditions = Some [regexExclude\<lparr>exclude := False\<rparr>], operator = Some ''or''\<rparr>)
   \<and> \<not> excludeHit cwSpot regexConfig Mode
   \<and> applyFilter cwSpot (Some regexConfig)"
proof -
  let ?inc = "regexExclude\<lparr>exclude := False\<rparr>"
  let ?ff = "\<lparr>conditions = Some [?inc], operator = Some ''or''\<rparr>"
  let ?ffx = "\<lparr>conditions = Some [regexExclude], operator = Some ''or''\<rparr>"
  have t: "type regexExclude \<noteq> ''exact'' \<and> type regexExclude \<noteq> ''contains''"
    by (simp add: regexExclude_def)
  have i: "conditions ?ff = Some [?inc] \<and> (\<exists>c \<in> set [?inc]. isInclude c)
        \<and> (\<forall>c \<in> set [?inc]. isInclude c \<longrightarrow> type c \<noteq> ''exact'' \<and> type c \<noteq> ''contains'')"
    by (simp add: regexExclude_def isInclude_def)
  have x: "configField regexConfig Mode = Some ?ffx \<and> conditions ?ffx = Some [regexExclude]
        \<and> (\<forall>c \<in> set [regexExclude]. isExclude c \<longrightarrow> type c \<noteq> ''exact'' \<and> type c \<noteq> ''contains'')"
    by (simp add: regexConfig_def regexExclude_def)
  have acc: "applyFilter cwSpot (Some regexConfig)" by code_simp
  from unknown_type_inert [of regexExclude "JString ''CW''" ?ff "[?inc]" regexConfig Mode cwSpot]
    unknown_type_inert [of regexExclude "JString ''CW''" ?ffx "[regexExclude]" regexConfig Mode cwSpot]
    t i x acc
  show ?thesis by blast
qed

subsection \<open>The condition matcher\<close>




subsection \<open>Spots reported by others\<close>

text \<open>
  Claim C6, as stated, fails: \<^verbatim>\<open>callsignsMatch\<close> returns false as soon as one of the two
  call signs is empty or absent, before it normalises. A record whose two call signs are
  both empty has equal normalised call signs and is rejected all the same, by a
  configuration that has no condition at all.
\<close>

theorem empty_callsigns_rejected:
  "ignoreOtherSpotters ownSpotsConfig
   \<and> toUpperCase (trim (beforeSlash (toString (activator noCallsignSpot))))
       = toUpperCase (trim (beforeSlash (toString (spotter noCallsignSpot))))
   \<and> \<not> applyFilter noCallsignSpot (Some ownSpotsConfig)
   \<and> applyFilter noCallsignSpot (Some defaultConfig)"
  by code_simp

lemma normalizeCallsign_JString:
  "normalizeCallsign (JString x) = toUpperCase (trim (beforeSlash x))"
  by (simp add: normalizeCallsign_def toUpperCase_def trim_def beforeSlash_def)

text \<open>
  Claim C6, amended. With \<^verbatim>\<open>ignoreOtherSpotters\<close> set, \<^verbatim>\<open>applyFilter\<close> rejects the
  record when its activator or its spotter is empty or absent, or when the two differ
  after normalisation (the part before the first slash, trimmed, in upper case); when
  both are present and equal after normalisation, the verdict is that of the exclude and
  include passes.
\<close>

theorem ignoreOtherSpotters_gate:
  assumes "ignoreOtherSpotters cfg"
  shows "applyFilter s (Some cfg)
     = (truthy (activator s) \<and> truthy (spotter s)
        \<and> normalizeCallsign (activator s) = normalizeCallsign (spotter s)
        \<and> applyFilter s (Some (cfg\<lparr>ignoreOtherSpotters := False\<rparr>)))
   \<and> normalizeCallsign (JString x) = toUpperCase (trim (beforeSlash x))"
proof -
  have e: "excludeHit s (cfg\<lparr>ignoreOtherSpotters := False\<rparr>) = excludeHit s cfg"
  proof
    fix f show "excludeHit s (cfg\<lparr>ignoreOtherSpotters := False\<rparr>) f = excludeHit s cfg f"
      by (cases f) (simp_all add: excludeHit_def)
  qed
  show ?thesis
    using assms e by (auto simp: applyFilter_def callsignsMatch_def normalizeCallsign_JString)
qed

theorem ignoreOtherSpotters_gate_witness:
  "applyFilter (cwSpot\<lparr>spotter := JString '' jk1azt /P''\<rparr>) (Some ownSpotsConfig)
   \<and> \<not> applyFilter cwSpot (Some ownSpotsConfig)
   \<and> normalizeCallsign (JString '' jk1azt /P'') = ''JK1AZT''"
proof -
  have i: "ignoreOtherSpotters ownSpotsConfig" by (simp add: ownSpotsConfig_def defaultConfig_def)
  have a: "truthy (activator (cwSpot\<lparr>spotter := JString '' jk1azt /P''\<rparr>))
      \<and> truthy (spotter (cwSpot\<lparr>spotter := JString '' jk1azt /P''\<rparr>))
      \<and> normalizeCallsign (activator (cwSpot\<lparr>spotter := JString '' jk1azt /P''\<rparr>))
          = normalizeCallsign (spotter (cwSpot\<lparr>spotter := JString '' jk1azt /P''\<rparr>))
      \<and> applyFilter (cwSpot\<lparr>spotter := JString '' jk1azt /P''\<rparr>)
          (Some (ownSpotsConfig\<lparr>ignoreOtherSpotters := False\<rparr>))"
    by code_simp
  have b: "normalizeCallsign (activator cwSpot) \<noteq> normalizeCallsign (spotter cwSpot)"
    by code_simp
  have c: "toUpperCase (trim (beforeSlash '' jk1azt /P'')) = ''JK1AZT''" by code_simp
  from i a b c
    ignoreOtherSpotters_gate [OF i, of "cwSpot\<lparr>spotter := JString '' jk1azt /P''\<rparr>" "'' jk1azt /P''"]
    ignoreOtherSpotters_gate [OF i, of cwSpot]
  show ?thesis by simp
qed


section \<open>Properties of the novelty index\<close>

lemma scanSpots_fst_indep:
  "fst (scanSpots cfg spots (known, f)) = fst (scanSpots cfg' spots (known, f'))"
  by (induction spots arbitrary: known f f') auto

lemma scanSpots_set:
  "set (fst (scanSpots cfg spots (known, f))) = set known \<union> spotId ` set spots"
  by (induction spots arbitrary: known f) auto

lemma scanSpots_distinct:
  "distinct known \<Longrightarrow> distinct (fst (scanSpots cfg spots (known, f)))"
  by (induction spots arbitrary: known f) auto

lemma scanSpots_prefix:
  "prefix known (fst (scanSpots cfg spots (known, f)))"
proof (induction spots arbitrary: known f)
  case Nil
  show ?case by simp
next
  case (Cons s rest)
  show ?case
  proof (cases "spotId s \<in> set known")
    case True
    then show ?thesis using Cons.IH by simp
  next
    case False
    have "prefix known (known @ [spotId s])" by simp
    also have "prefix (known @ [spotId s]) (fst (scanSpots cfg (s # rest) (known, f)))"
      using False Cons.IH by simp
    finally show ?thesis .
  qed
qed

lemma scanSpots_snd:
  "\<exists>acc. snd (scanSpots cfg spots (known, f)) = f @ acc
     \<and> (\<forall>s \<in> set acc. s \<in> set spots \<and> spotId s \<notin> set known \<and> cfg \<noteq> None \<and> applyFilter s cfg)
     \<and> distinct (map spotId acc)"
proof (induction spots arbitrary: known f)
  case Nil
  show ?case by simp
next
  case (Cons s rest)
  show ?case
  proof (cases "spotId s \<in> set known")
    case True
    then show ?thesis using Cons.IH [of known f] by auto
  next
    case False
    let ?f = "if cfg \<noteq> None \<and> applyFilter s cfg then f @ [s] else f"
    obtain acc where acc: "snd (scanSpots cfg rest (known @ [spotId s], ?f)) = ?f @ acc"
      "\<forall>t \<in> set acc. t \<in> set rest \<and> spotId t \<notin> set (known @ [spotId s]) \<and> cfg \<noteq> None \<and> applyFilter t cfg"
      "distinct (map spotId acc)"
      using Cons.IH [of "known @ [spotId s]" ?f] by blast
    show ?thesis
    proof (cases "cfg \<noteq> None \<and> applyFilter s cfg")
      case True
      have "snd (scanSpots cfg (s # rest) (known, f)) = f @ (s # acc)"
        using False True acc(1) by simp
      moreover have "\<forall>t \<in> set (s # acc). t \<in> set (s # rest) \<and> spotId t \<notin> set known \<and> cfg \<noteq> None \<and> applyFilter t cfg"
        using False True acc(2) by auto
      moreover have "distinct (map spotId (s # acc))"
        using acc(2,3) by auto
      ultimately show ?thesis by blast
    next
      case nacc: False
      have "snd (scanSpots cfg (s # rest) (known, f)) = f @ acc"
        using False nacc acc(1) by auto
      moreover have "\<forall>t \<in> set acc. t \<in> set (s # rest) \<and> spotId t \<notin> set known \<and> cfg \<noteq> None \<and> applyFilter t cfg"
        using acc(2) by auto
      ultimately show ?thesis using acc(3) by blast
    qed
  qed
qed

lemma scanSpots_skip_gen:
  "A \<subseteq> set known \<Longrightarrow>
   scanSpots cfg spots (known, f) = scanSpots cfg (filter (\<lambda>s. spotId s \<notin> A) spots) (known, f)"
proof (induction spots arbitrary: known f)
  case Nil
  show ?case by simp
next
  case (Cons s rest)
  show ?case
  proof (cases "spotId s \<in> set known")
    case True
    then show ?thesis using Cons.IH [OF Cons.prems] by simp
  next
    case False
    then have "spotId s \<notin> A" using Cons.prems by blast
    moreover have "A \<subseteq> set (known @ [spotId s])" using Cons.prems by auto
    ultimately show ?thesis using False Cons.IH by simp
  qed
qed

lemma scanSpots_skip:
  "scanSpots cfg spots (known, f)
     = scanSpots cfg (filter (\<lambda>s. spotId s \<notin> set known) spots) (known, f)"
  by (rule scanSpots_skip_gen) simp

subsection \<open>The loop and the first sightings\<close>

lemma firstSightings_Nil: "firstSightings known [] = []"
  by (simp add: firstSightings_def)

lemma firstSightings_Cons:
  "firstSightings known (s # rest) =
     (if spotId s \<in> set known then firstSightings known rest
      else s # firstSightings (known @ [spotId s]) rest)"
proof -
  have u: "[0..<length (s # rest)] = 0 # map Suc [0..<length rest]"
    by (simp add: upt_conv_Cons map_Suc_upt del: upt_Suc)
  have later: "filter (\<lambda>i. spotId ((s # rest) ! i) \<notin> set known \<union> spotId ` set (take i (s # rest)))
        (map Suc [0..<length rest])
      = map Suc (filter (\<lambda>i. spotId (rest ! i) \<notin> set (known @ [spotId s]) \<union> spotId ` set (take i rest))
          [0..<length rest])"
  proof -
    have "filter (\<lambda>i. spotId ((s # rest) ! i) \<notin> set known \<union> spotId ` set (take i (s # rest)))
        (map Suc [0..<length rest])
      = map Suc (filter ((\<lambda>i. spotId ((s # rest) ! i) \<notin> set known \<union> spotId ` set (take i (s # rest))) \<circ> Suc)
          [0..<length rest])"
      by (rule filter_map)
    also have "filter ((\<lambda>i. spotId ((s # rest) ! i) \<notin> set known \<union> spotId ` set (take i (s # rest))) \<circ> Suc)
          [0..<length rest]
        = filter (\<lambda>i. spotId (rest ! i) \<notin> set (known @ [spotId s]) \<union> spotId ` set (take i rest))
          [0..<length rest]"
      by (rule filter_cong) auto
    finally show ?thesis .
  qed
  have nth: "map (\<lambda>i. (s # rest) ! i) (map Suc js) = map (\<lambda>i. rest ! i) js" for js
    by simp
  have absorb: "set (known @ [spotId s]) = set known" if "spotId s \<in> set known"
    using that by auto
  have shape: "firstSightings known (s # rest)
      = (if spotId s \<in> set known then [] else [s]) @ firstSightings (known @ [spotId s]) rest"
    unfolding firstSightings_def u
    by (simp only: filter.simps later list.map nth nth_Cons_0 take_0 list.set image_empty
        Un_empty_right length_Cons split: if_splits) simp
  have same: "firstSightings (known @ [spotId s]) rest = firstSightings known rest"
    if "spotId s \<in> set known"
    unfolding firstSightings_def using absorb [OF that] by simp
  show ?thesis using shape same by simp
qed

lemma scanSpots_exact:
  "scanSpots cfg spots (known, f)
     = (known @ map spotId (firstSightings known spots),
        f @ filter (\<lambda>s. cfg \<noteq> None \<and> applyFilter s cfg) (firstSightings known spots))"
  by (induction spots arbitrary: known f) (simp_all add: firstSightings_Nil firstSightings_Cons)

lemma firstSightings_known:
  "\<forall>s \<in> set spots. spotId s \<in> set known \<Longrightarrow> firstSightings known spots = []"
  by (induction spots) (simp_all add: firstSightings_Nil firstSightings_Cons)

lemma firstSightings_fresh:
  "distinct (map spotId spots) \<Longrightarrow> set known \<inter> spotId ` set spots = {} \<Longrightarrow>
   firstSightings known spots = spots"
proof (induction spots arbitrary: known)
  case Nil
  show ?case by (simp add: firstSightings_Nil)
next
  case (Cons s rest)
  have new: "spotId s \<notin> set known" using Cons.prems(2) by auto
  have "distinct (map spotId rest)" using Cons.prems(1) by simp
  moreover have "set (known @ [spotId s]) \<inter> spotId ` set rest = {}"
    using Cons.prems by auto
  ultimately have "firstSightings (known @ [spotId s]) rest = rest" by (rule Cons.IH)
  then show ?case using new by (simp add: firstSightings_Cons)
qed

lemma firstSightings_new:
  "s \<in> set (firstSightings known spots) \<Longrightarrow> s \<in> set spots \<and> spotId s \<notin> set known"
  by (auto simp: firstSightings_def)

lemma defaultConfig_accepts: "applyFilter s (Some defaultConfig)"
  by (simp add: applyFilter_def defaultConfig_def excludeHit_def trackedFields_def
      applyFieldFilter_def)

subsection \<open>Eviction\<close>

lemma scanSpots_fresh:
  "distinct (map spotId spots) \<Longrightarrow> set known \<inter> spotId ` set spots = {} \<Longrightarrow>
   fst (scanSpots cfg spots (known, f)) = known @ map spotId spots"
proof (induction spots arbitrary: known f)
  case Nil
  show ?case by simp
next
  case (Cons s rest)
  have new: "spotId s \<notin> set known" using Cons.prems(2) by auto
  have "distinct (map spotId rest)" using Cons.prems(1) by simp
  moreover have "set (known @ [spotId s]) \<inter> spotId ` set rest = {}"
    using Cons.prems by auto
  ultimately show ?case using new Cons.IH by simp
qed

lemma evict_length: "length (evict k) = min (length k) 1000"
  by (simp add: evict_def)

lemma evict_suffix: "suffix (evict k) k"
  by (simp add: evict_def suffix_drop)

lemma evict_append: "evict (evict a @ b) = evict (a @ b)"
  by (simp add: evict_def add.commute)

lemma evict_idem: "length k \<le> 1000 \<Longrightarrow> evict k = k"
  by (simp add: evict_def)

lemma fst_processSpots:
  "fst (processSpots ns cfg e known spots) = evict (fst (scanSpots cfg spots (known, [])))"
  by (simp add: processSpots_def split: prod.splits)

lemma pollAll_singletons:
  "distinct (map spotId spots) \<Longrightarrow> set known \<inter> spotId ` set spots = {} \<Longrightarrow>
   fst (pollAll ns cfg e (evict known) (map (\<lambda>s. [s]) spots)) = evict (known @ map spotId spots)"
proof (induction spots arbitrary: known)
  case Nil
  show ?case by (simp add: evict_def)
next
  case (Cons s rest)
  have new: "spotId s \<notin> set (evict known)"
    using Cons.prems(2) set_mono_suffix [OF evict_suffix [of known]] by auto
  have step: "fst (processSpots ns cfg e (evict known) [s]) = evict (known @ [spotId s])"
    using new by (simp add: fst_processSpots evict_append)
  have "distinct (map spotId rest)" using Cons.prems(1) by simp
  moreover have "set (known @ [spotId s]) \<inter> spotId ` set rest = {}"
    using Cons.prems by auto
  ultimately have "fst (pollAll ns cfg e (evict (known @ [spotId s])) (map (\<lambda>s. [s]) rest))
      = evict ((known @ [spotId s]) @ map spotId rest)"
    by (rule Cons.IH)
  moreover have "fst (pollAll ns cfg e (evict known) (map (\<lambda>s. [s]) (s # rest)))
      = fst (pollAll ns cfg e (fst (processSpots ns cfg e (evict known) [s])) (map (\<lambda>s. [s]) rest))"
    by (simp add: split: prod.splits)
  ultimately show ?case using step by simp
qed

text \<open>
  Claim C3. When the index holds more than 1000 identities at the end of a batch,
  \<^verbatim>\<open>processSpots\<close> leaves exactly 1000 of them, and what it leaves is always the end of
  the index in insertion order: the oldest entries go. 1001 distinct identities fed to an
  empty index, in one batch or one batch each, leave all of them but the first.
\<close>

theorem eviction_fifo:
  "(length (fst (scanSpots cfg spots (known, []))) > 1000 \<longrightarrow>
      length (fst (processSpots ns cfg e known spots)) = 1000)
   \<and> (length (fst (scanSpots cfg spots (known, []))) \<le> 1000 \<longrightarrow>
      fst (processSpots ns cfg e known spots) = fst (scanSpots cfg spots (known, [])))
   \<and> suffix (fst (processSpots ns cfg e known spots)) (fst (scanSpots cfg spots (known, [])))
   \<and> (distinct (map spotId spots) \<and> length spots = 1001 \<longrightarrow>
        fst (processSpots ns cfg e [] spots) = tl (map spotId spots)
        \<and> fst (pollAll ns cfg e [] (map (\<lambda>s. [s]) spots)) = tl (map spotId spots)
        \<and> length (tl (map spotId spots)) = 1000
        \<and> spotId (hd spots) \<notin> set (tl (map spotId spots)))"
proof (intro conjI impI)
  show "length (fst (processSpots ns cfg e known spots)) = 1000"
    if "length (fst (scanSpots cfg spots (known, []))) > 1000"
    using that by (simp add: fst_processSpots evict_length)
  show "fst (processSpots ns cfg e known spots) = fst (scanSpots cfg spots (known, []))"
    if "length (fst (scanSpots cfg spots (known, []))) \<le> 1000"
    using that by (simp add: fst_processSpots evict_idem)
  show "suffix (fst (processSpots ns cfg e known spots)) (fst (scanSpots cfg spots (known, [])))"
    by (simp add: fst_processSpots evict_suffix)
next
  assume a: "distinct (map spotId spots) \<and> length spots = 1001"
  then have d: "distinct (map spotId spots)" and l: "length (map spotId spots) = 1001"
    by simp_all
  have ev: "evict (map spotId spots) = tl (map spotId spots)"
    using l by (simp add: evict_def drop_Suc)
  show "fst (processSpots ns cfg e [] spots) = tl (map spotId spots)"
    using scanSpots_fresh [OF d, of "[]" cfg "[]"] ev by (simp add: fst_processSpots)
  have "fst (pollAll ns cfg e (evict []) (map (\<lambda>s. [s]) spots)) = evict ([] @ map spotId spots)"
    using d by (intro pollAll_singletons) simp_all
  then show "fst (pollAll ns cfg e [] (map (\<lambda>s. [s]) spots)) = tl (map spotId spots)"
    using ev by (simp add: evict_def)
  show "length (tl (map spotId spots)) = 1000" using l by simp
  show "spotId (hd spots) \<notin> set (tl (map spotId spots))"
    using d l by (cases spots) auto
qed

theorem eviction_fifo_witness:
  "fst (processSpots allEnabled (Some defaultConfig) sampleEnv [] (map spotWithId [0..1000])) = [1..1000]
   \<and> fst (pollAll allEnabled (Some defaultConfig) sampleEnv [] (map (\<lambda>s. [s]) (map spotWithId [0..1000]))) = [1..1000]
   \<and> length [1..1000] = 1000 \<and> 0 \<notin> set [1..1000]
   \<and> fst (processSpots allEnabled (Some defaultConfig) sampleEnv [0] [spotWithId 0, spotWithId 1]) = [0, 1]"
proof -
  have ids: "map spotId (map spotWithId [0..1000]) = [0..1000]"
    by (simp add: spotWithId_def o_def)
  have d: "distinct (map spotId (map spotWithId [0..1000])) \<and> length (map spotWithId [0..1000]) = 1001"
    unfolding ids by simp
  have t: "tl [0..1000] = [1..1000]"
    by (subst upto_rec1) simp_all
  have small: "length (fst (scanSpots (Some defaultConfig) [spotWithId 0, spotWithId 1] ([0], []))) \<le> 1000"
    "fst (scanSpots (Some defaultConfig) [spotWithId 0, spotWithId 1] ([0], [])) = [0, 1]"
    by (simp_all add: spotWithId_def)
  show ?thesis
    using eviction_fifo [of "Some defaultConfig" "map spotWithId [0..1000]" "[]" allEnabled sampleEnv] d
      eviction_fifo [of "Some defaultConfig" "[spotWithId 0, spotWithId 1]" "[0]" allEnabled sampleEnv] small
    unfolding ids t by simp
qed


section \<open>Properties of the dispatch\<close>

lemma snd_processSpots:
  "snd (processSpots ns cfg e known spots)
     = concat (map (perform ns cfg e) (dispatch cfg e (snd (scanSpots cfg spots (known, [])))))"
  by (simp add: processSpots_def split: prod.splits)

lemma speakLoop_isSpeech: "x \<in> set (speakLoop e target i queue) \<Longrightarrow> isSpeech x"
  by (induction queue arbitrary: i) (auto split: synthResult.splits if_splits)

lemma speak_isSpeech:
  "x \<in> set (speakMultipleSpotsWithVoicevox e spots en target) \<Longrightarrow> isSpeech x"
  by (auto simp: speakMultipleSpotsWithVoicevox_def split: if_splits dest: speakLoop_isSpeech)

lemma filter_speak_empty:
  assumes "\<And>x. isSpeech x \<Longrightarrow> \<not> P x"
  shows "filter P (speakMultipleSpotsWithVoicevox e spots en target) = []"
  using assms speak_isSpeech by (fastforce simp: filter_empty_conv)

lemma filter_sound_empty:
  assumes "\<And>x. isSound x \<Longrightarrow> \<not> P x"
  shows "filter P (handleNotificationSound ns cfg e) = []"
  using assms
  by (auto simp: handleNotificationSound_def playNotificationSound_def filter_empty_conv
      split: option.splits if_splits)

lemma filter_concat_map_const:
  "(\<And>x. x \<in> set xs \<Longrightarrow> filter P (f x) = []) \<Longrightarrow> filter P (concat (map f xs)) = []"
  by (induction xs) auto

lemma filter_concat_map_single:
  "(\<And>x. x \<in> set xs \<Longrightarrow> filter P (f x) = [g x]) \<Longrightarrow> filter P (concat (map f xs)) = map g xs"
  by (induction xs) auto

lemma effects_split:
  assumes "fs \<noteq> []"
  shows "concat (map (perform ns cfg e) (dispatch cfg e fs))
     = handleNotificationSound ns cfg e
       @ concat (map (showNotification ns e) (notificationSpots cfg fs))
       @ concat (map (showPopupNotification ns) (popupSpots cfg fs))
       @ (if audioTarget e then speakMultipleSpotsWithVoicevox e fs (voicevoxEnabled ns) (audioTarget e)
          else [])"
  using assms by (simp add: dispatch_def map_concat o_def)

lemma no_notification_in_popup: "filter isNotificationShown (showPopupNotification ns s) = []"
  by (simp add: showPopupNotification_def)

lemma no_popup_in_notification: "filter isPopupShown (showNotification ns e s) = []"
  by (simp add: showNotification_def)

lemma no_sound_in_notification: "filter isSound (showNotification ns e s) = []"
  by (simp add: showNotification_def)

lemma no_sound_in_popup: "filter isSound (showPopupNotification ns s) = []"
  by (simp add: showPopupNotification_def)

lemma other_channels_silent:
  "filter isNotificationShown (handleNotificationSound ns cfg e) = []"
  "filter isPopupShown (handleNotificationSound ns cfg e) = []"
  "filter isNotificationShown (speakMultipleSpotsWithVoicevox e spots en target) = []"
  "filter isPopupShown (speakMultipleSpotsWithVoicevox e spots en target) = []"
  "filter isSound (speakMultipleSpotsWithVoicevox e spots en target) = []"
proof -
  have a: "isSound x \<Longrightarrow> \<not> isNotificationShown x"
    and b: "isSound x \<Longrightarrow> \<not> isPopupShown x"
    and c: "isSpeech x \<Longrightarrow> \<not> isNotificationShown x"
    and d: "isSpeech x \<Longrightarrow> \<not> isPopupShown x"
    and e: "isSpeech x \<Longrightarrow> \<not> isSound x" for x
    by (cases x; simp)+
  show "filter isNotificationShown (handleNotificationSound ns cfg e) = []"
    by (rule filter_sound_empty) (rule a)
  show "filter isPopupShown (handleNotificationSound ns cfg e) = []"
    by (rule filter_sound_empty) (rule b)
  show "filter isNotificationShown (speakMultipleSpotsWithVoicevox e spots en target) = []"
    by (rule filter_speak_empty) (rule c)
  show "filter isPopupShown (speakMultipleSpotsWithVoicevox e spots en target) = []"
    by (rule filter_speak_empty) (rule d)
  show "filter isSound (speakMultipleSpotsWithVoicevox e spots en target) = []"
    by (rule filter_speak_empty) (rule e)
qed

subsection \<open>The caps of the alert and popup channels\<close>

text \<open>
  Claim C4. For a non-empty \<^verbatim>\<open>filteredSpots\<close>, \<^verbatim>\<open>showNotification\<close> is called on
  exactly its first \<^verbatim>\<open>maxNotificationCount\<close> entries, in order, and on all of them when
  the cap is 0; \<^verbatim>\<open>showPopupNotification\<close> is called on exactly its first
  \<^verbatim>\<open>maxPopupCount\<close> entries, likewise, whatever the other cap is. With the notification
  channel switched on and supported, these are the notifications shown; with the popup
  channel switched on, these are the popups opened.
\<close>

theorem caps_independent:
  assumes "filteredSpots \<noteq> []"
    and "snd (scanSpots (Some cfg) spots (known, [])) = filteredSpots"
  shows "filter isShowNotification (dispatch (Some cfg) e filteredSpots)
       = map ShowNotification
           (if maxNotificationCount cfg > 0
            then take (nat (maxNotificationCount cfg)) filteredSpots else filteredSpots)
     \<and> filter isShowPopupNotification (dispatch (Some cfg) e filteredSpots)
       = map ShowPopupNotification
           (if maxPopupCount cfg > 0
            then take (nat (maxPopupCount cfg)) filteredSpots else filteredSpots)
     \<and> (notificationEnabled ns \<and> notificationSupported e \<longrightarrow>
          filter isNotificationShown (snd (processSpots ns (Some cfg) e known spots))
          = map NotificationShown
              (if maxNotificationCount cfg > 0
               then take (nat (maxNotificationCount cfg)) filteredSpots else filteredSpots))
     \<and> (popupEnabled ns \<longrightarrow>
          filter isPopupShown (snd (processSpots ns (Some cfg) e known spots))
          = map PopupShown
              (if maxPopupCount cfg > 0
               then take (nat (maxPopupCount cfg)) filteredSpots else filteredSpots))"
proof (intro conjI impI)
  let ?n = "notificationSpots (Some cfg) filteredSpots"
  let ?p = "popupSpots (Some cfg) filteredSpots"
  have n: "?n = (if maxNotificationCount cfg > 0
            then take (nat (maxNotificationCount cfg)) filteredSpots else filteredSpots)"
    by (simp add: notificationSpots_def)
  have p: "?p = (if maxPopupCount cfg > 0
            then take (nat (maxPopupCount cfg)) filteredSpots else filteredSpots)"
    by (simp add: popupSpots_def)
  have calls: "dispatch (Some cfg) e filteredSpots
      = [HandleNotificationSound] @ map ShowNotification ?n @ map ShowPopupNotification ?p
        @ (if audioTarget e then [SpeakMultipleSpotsWithVoicevox filteredSpots] else [])"
    using assms(1) by (simp add: dispatch_def)
  have f1: "filter isShowNotification (map ShowNotification xs) = map ShowNotification xs"
    and f2: "filter isShowNotification (map ShowPopupNotification xs) = []"
    and f3: "filter isShowPopupNotification (map ShowPopupNotification xs) = map ShowPopupNotification xs"
    and f4: "filter isShowPopupNotification (map ShowNotification xs) = []" for xs
    by (induction xs) simp_all
  show "filter isShowNotification (dispatch (Some cfg) e filteredSpots)
       = map ShowNotification
           (if maxNotificationCount cfg > 0
            then take (nat (maxNotificationCount cfg)) filteredSpots else filteredSpots)"
    unfolding calls n [symmetric] by (simp add: f1 f2)
  show "filter isShowPopupNotification (dispatch (Some cfg) e filteredSpots)
       = map ShowPopupNotification
           (if maxPopupCount cfg > 0
            then take (nat (maxPopupCount cfg)) filteredSpots else filteredSpots)"
    unfolding calls p [symmetric] by (simp add: f3 f4)
  have eff: "snd (processSpots ns (Some cfg) e known spots)
     = handleNotificationSound ns (Some cfg) e
       @ concat (map (showNotification ns e) ?n)
       @ concat (map (showPopupNotification ns) ?p)
       @ (if audioTarget e
          then speakMultipleSpotsWithVoicevox e filteredSpots (voicevoxEnabled ns) (audioTarget e)
          else [])"
    using effects_split [OF assms(1)] assms(2) by (simp add: snd_processSpots)
  {
    assume en: "notificationEnabled ns \<and> notificationSupported e"
    have "filter isNotificationShown (concat (map (showNotification ns e) ?n))
        = map NotificationShown ?n"
      using en by (intro filter_concat_map_single) (simp add: showNotification_def)
    moreover have "filter isNotificationShown (concat (map (showPopupNotification ns) ?p)) = []"
      by (intro filter_concat_map_const) (rule no_notification_in_popup)
    ultimately show "filter isNotificationShown (snd (processSpots ns (Some cfg) e known spots))
          = map NotificationShown
              (if maxNotificationCount cfg > 0
               then take (nat (maxNotificationCount cfg)) filteredSpots else filteredSpots)"
      unfolding eff n [symmetric]
      by (simp add: other_channels_silent)
  }
  {
    assume en: "popupEnabled ns"
    have "filter isPopupShown (concat (map (showPopupNotification ns) ?p)) = map PopupShown ?p"
      using en by (intro filter_concat_map_single) (simp add: showPopupNotification_def)
    moreover have "filter isPopupShown (concat (map (showNotification ns e) ?n)) = []"
      by (intro filter_concat_map_const) (rule no_popup_in_notification)
    ultimately show "filter isPopupShown (snd (processSpots ns (Some cfg) e known spots))
          = map PopupShown
              (if maxPopupCount cfg > 0
               then take (nat (maxPopupCount cfg)) filteredSpots else filteredSpots)"
      unfolding eff p [symmetric]
      by (simp add: other_channels_silent)
  }
qed

text \<open>Caps 1 and 3 on five accepted records: one notification, three popups.\<close>

lemma scan_five:
  "scanSpots (Some capsConfig) (map spotWithId [1, 2, 3, 4, 5]) ([], [])
     = ([1, 2, 3, 4, 5], map spotWithId [1, 2, 3, 4, 5])"
proof -
  have "applyFilter (spotWithId i) (Some capsConfig)" for i
    by (simp add: applyFilter_def capsConfig_def defaultConfig_def excludeHit_def
        trackedFields_def applyFieldFilter_def)
  moreover have "spotId (spotWithId i) = i" for i by (simp add: spotWithId_def)
  ultimately show ?thesis by simp
qed

theorem caps_independent_witness:
  "filter isShowNotification (dispatch (Some capsConfig) sampleEnv (map spotWithId [1, 2, 3, 4, 5]))
     = [ShowNotification (spotWithId 1)]
   \<and> filter isShowPopupNotification (dispatch (Some capsConfig) sampleEnv (map spotWithId [1, 2, 3, 4, 5]))
     = [ShowPopupNotification (spotWithId 1), ShowPopupNotification (spotWithId 2),
        ShowPopupNotification (spotWithId 3)]
   \<and> filter isNotificationShown
       (snd (processSpots allEnabled (Some capsConfig) sampleEnv [] (map spotWithId [1, 2, 3, 4, 5])))
     = [NotificationShown (spotWithId 1)]
   \<and> filter isPopupShown
       (snd (processSpots allEnabled (Some capsConfig) sampleEnv [] (map spotWithId [1, 2, 3, 4, 5])))
     = [PopupShown (spotWithId 1), PopupShown (spotWithId 2), PopupShown (spotWithId 3)]"
proof -
  have ne: "map spotWithId [1, 2, 3, 4, 5] \<noteq> []" by simp
  have sc: "snd (scanSpots (Some capsConfig) (map spotWithId [1, 2, 3, 4, 5]) ([], []))
      = map spotWithId [1, 2, 3, 4, 5]"
    by (simp only: scan_five snd_conv)
  have caps: "maxNotificationCount capsConfig = 1" "maxPopupCount capsConfig = 3"
    by (simp_all add: capsConfig_def)
  have en: "notificationEnabled allEnabled \<and> notificationSupported sampleEnv"
    "popupEnabled allEnabled"
    by (simp_all add: allEnabled_def sampleEnv_def)
  show ?thesis
    using caps_independent [OF ne sc, of sampleEnv allEnabled] en
    by (simp add: caps)
qed

subsection \<open>The notification sound\<close>

lemma playNotificationSound_single:
  "hasCustomSound cfg \<Longrightarrow> \<exists>x. playNotificationSound cfg e = [x] \<and> isSound x"
  by (auto simp: hasCustomSound_def playNotificationSound_def split: option.splits)

text \<open>
  Claim C8. A batch whose \<^verbatim>\<open>filteredSpots\<close> is empty issues no call and has no effect.
  Otherwise \<^verbatim>\<open>handleNotificationSound\<close> is the first call and is called once, however
  many records passed; with the sound channel enabled and a custom sound configured, the
  first effect of the batch is the one attempt of \<^verbatim>\<open>playNotificationSound\<close>, no other
  effect of the batch is a sound, and the attempt plays the configured file when a window
  can play it and the file can be read.
\<close>

theorem sound_once_per_batch:
  assumes "snd (scanSpots cfg spots (known, [])) = filteredSpots"
  shows "(filteredSpots = [] \<longrightarrow>
            dispatch cfg e filteredSpots = [] \<and> snd (processSpots ns cfg e known spots) = [])
     \<and> (filteredSpots \<noteq> [] \<longrightarrow>
            (\<exists>rest. dispatch cfg e filteredSpots = HandleNotificationSound # rest
                \<and> HandleNotificationSound \<notin> set rest))
     \<and> (filteredSpots \<noteq> [] \<and> soundEnabled ns \<and> hasCustomSound cfg \<longrightarrow>
            (\<exists>x rest. snd (processSpots ns cfg e known spots) = x # rest
                \<and> playNotificationSound cfg e = [x] \<and> isSound x
                \<and> filter isSound rest = []))
     \<and> (cfg = Some c \<and> notificationSoundPath c = Some p \<and> p \<noteq> []
          \<and> audioTarget e \<and> soundFileReadable e \<longrightarrow>
            playNotificationSound cfg e = [SoundPlayed p])"
proof -
  have empty: "dispatch cfg e filteredSpots = [] \<and> snd (processSpots ns cfg e known spots) = []"
    if "filteredSpots = []"
    using that assms by (simp add: snd_processSpots dispatch_def)
  have first: "\<exists>rest. dispatch cfg e filteredSpots = HandleNotificationSound # rest
                \<and> HandleNotificationSound \<notin> set rest"
    if ne: "filteredSpots \<noteq> []"
  proof -
    let ?rest = "map ShowNotification (notificationSpots cfg filteredSpots)
        @ map ShowPopupNotification (popupSpots cfg filteredSpots)
        @ (if audioTarget e then [SpeakMultipleSpotsWithVoicevox filteredSpots] else [])"
    have "dispatch cfg e filteredSpots = HandleNotificationSound # ?rest"
      using ne by (simp add: dispatch_def)
    moreover have "HandleNotificationSound \<notin> set ?rest" by auto
    ultimately show ?thesis by blast
  qed
  have once: "\<exists>x rest. snd (processSpots ns cfg e known spots) = x # rest
                \<and> playNotificationSound cfg e = [x] \<and> isSound x
                \<and> filter isSound rest = []"
    if a: "filteredSpots \<noteq> [] \<and> soundEnabled ns \<and> hasCustomSound cfg"
  proof -
    let ?rest = "concat (map (showNotification ns e) (notificationSpots cfg filteredSpots))
       @ concat (map (showPopupNotification ns) (popupSpots cfg filteredSpots))
       @ (if audioTarget e
          then speakMultipleSpotsWithVoicevox e filteredSpots (voicevoxEnabled ns) (audioTarget e)
          else [])"
    obtain x where x: "playNotificationSound cfg e = [x]" "isSound x"
      using a playNotificationSound_single by blast
    have "snd (processSpots ns cfg e known spots) = handleNotificationSound ns cfg e @ ?rest"
      using a effects_split [of filteredSpots ns cfg e] assms by (simp add: snd_processSpots)
    then have "snd (processSpots ns cfg e known spots) = x # ?rest"
      using a x by (simp add: handleNotificationSound_def)
    moreover have "filter isSound
        (concat (map (showNotification ns e) (notificationSpots cfg filteredSpots))) = []"
      by (intro filter_concat_map_const) (rule no_sound_in_notification)
    moreover have "filter isSound
        (concat (map (showPopupNotification ns) (popupSpots cfg filteredSpots))) = []"
      by (intro filter_concat_map_const) (rule no_sound_in_popup)
    ultimately have "snd (processSpots ns cfg e known spots) = x # ?rest
        \<and> filter isSound ?rest = []"
      by (simp add: other_channels_silent)
    then show ?thesis using x by blast
  qed
  have played: "playNotificationSound cfg e = [SoundPlayed p]"
    if "cfg = Some c \<and> notificationSoundPath c = Some p \<and> p \<noteq> []
          \<and> audioTarget e \<and> soundFileReadable e"
    using that by (simp add: playNotificationSound_def)
  show ?thesis using empty first once played by blast
qed

theorem sound_once_per_batch_witness:
  "snd (processSpots allEnabled (Some rejectAllConfig) sampleEnv [] (map spotWithId [1, 2, 3])) = []
   \<and> hd (snd (processSpots allEnabled (Some soundConfig) sampleEnv [] (map spotWithId [1, 2, 3])))
       = SoundPlayed ''C:/sounds/spot.wav''
   \<and> filter isSound
        (snd (processSpots allEnabled (Some soundConfig) sampleEnv [] (map spotWithId [1, 2, 3])))
       = [SoundPlayed ''C:/sounds/spot.wav'']"
proof -
  have rej: "snd (scanSpots (Some rejectAllConfig) (map spotWithId [1, 2, 3]) ([], [])) = []"
    by code_simp
  have acc: "snd (scanSpots (Some soundConfig) (map spotWithId [1, 2, 3]) ([], []))
      = map spotWithId [1, 2, 3]"
    by code_simp
  have on: "map spotWithId [1, 2, 3] \<noteq> [] \<and> soundEnabled allEnabled
      \<and> hasCustomSound (Some soundConfig)"
    by (simp add: allEnabled_def hasCustomSound_def soundConfig_def)
  have ok: "Some soundConfig = Some soundConfig
      \<and> notificationSoundPath soundConfig = Some ''C:/sounds/spot.wav''
      \<and> ''C:/sounds/spot.wav'' \<noteq> []
      \<and> audioTarget sampleEnv \<and> soundFileReadable sampleEnv"
    by (simp add: soundConfig_def sampleEnv_def)
  have e: "snd (processSpots allEnabled (Some rejectAllConfig) sampleEnv [] (map spotWithId [1, 2, 3])) = []"
    using sound_once_per_batch [OF rej, of sampleEnv allEnabled] by blast
  obtain x rest where xr:
    "snd (processSpots allEnabled (Some soundConfig) sampleEnv [] (map spotWithId [1, 2, 3])) = x # rest"
    "playNotificationSound (Some soundConfig) sampleEnv = [x]" "filter isSound rest = []"
    using sound_once_per_batch [OF acc, of sampleEnv allEnabled] on by blast
  have "playNotificationSound (Some soundConfig) sampleEnv = [SoundPlayed ''C:/sounds/spot.wav'']"
    using sound_once_per_batch [OF acc, of sampleEnv allEnabled soundConfig "''C:/sounds/spot.wav''"] ok
    by blast
  then have "x = SoundPlayed ''C:/sounds/spot.wav''" using xr(2) by simp
  then show ?thesis using e xr by simp
qed

subsection \<open>The speech queue\<close>

lemma speakLoop_all_requested:
  "\<forall>j < length queue. (\<exists>err. synthesize e (i + j) = SynthFail err) \<or> playback e (i + j) \<Longrightarrow>
   filter isSynthesisRequested (speakLoop e target i queue) = map SynthesisRequested queue"
proof (induction queue arbitrary: i)
  case Nil
  show ?case by simp
next
  case (Cons s rest)
  have here: "(\<exists>err. synthesize e i = SynthFail err) \<or> playback e i"
    using Cons.prems by force
  have "\<forall>j < length rest. (\<exists>err. synthesize e (Suc i + j) = SynthFail err) \<or> playback e (Suc i + j)"
  proof (intro allI impI)
    fix j assume "j < length rest"
    then have "Suc j < length (s # rest)" by simp
    then show "(\<exists>err. synthesize e (Suc i + j) = SynthFail err) \<or> playback e (Suc i + j)"
      using Cons.prems by fastforce
  qed
  then have "filter isSynthesisRequested (speakLoop e target (Suc i) rest) = map SynthesisRequested rest"
    by (rule Cons.IH)
  then show ?case using here by (auto split: synthResult.splits)
qed

lemma perform_without_speech:
  "filter (\<lambda>x. \<not> isSpeech x) (perform ns cfg (e\<lparr>synthesize := f\<rparr>) c)
     = filter (\<lambda>x. \<not> isSpeech x) (perform ns cfg e c)"
proof (cases c)
  case HandleNotificationSound
  then show ?thesis
    by (simp add: handleNotificationSound_def playNotificationSound_def split: option.splits)
next
  case (ShowNotification s)
  then show ?thesis by (simp add: showNotification_def)
next
  case (ShowPopupNotification s)
  then show ?thesis by simp
next
  case (SpeakMultipleSpotsWithVoicevox spots)
  have "filter (\<lambda>x. \<not> isSpeech x) (speakMultipleSpotsWithVoicevox e' spots en t) = []" for e' en t
    by (rule filter_speak_empty) simp
  then show ?thesis using SpeakMultipleSpotsWithVoicevox by simp
qed

text \<open>
  Claim C7. When the synthesis of a queued record fails, the failure is logged and the
  loop goes on with the next record. So, when no playback throws, a synthesis is requested
  for every record of the queue, in order, whichever of them fail. The outcomes of the
  syntheses change neither the index nor any effect that is not speech.
\<close>

theorem synthesis_failure_skipped:
  "(synthesize e i = SynthFail err \<longrightarrow>
      speakLoop e target i (s # rest)
        = SynthesisRequested s # SynthesisErrorLogged err # speakLoop e target (Suc i) rest)
   \<and> (en \<and> \<not> noSpeaker (voicevox e)
        \<and> (\<forall>j < length (spotsToRead (voicevox e) queue).
              (\<exists>err. synthesize e j = SynthFail err) \<or> playback e j) \<longrightarrow>
        filter isSynthesisRequested (speakMultipleSpotsWithVoicevox e queue en target)
          = map SynthesisRequested (spotsToRead (voicevox e) queue))
   \<and> filter (\<lambda>x. \<not> isSpeech x) (snd (processSpots ns cfg (e\<lparr>synthesize := f\<rparr>) known spots))
       = filter (\<lambda>x. \<not> isSpeech x) (snd (processSpots ns cfg e known spots))
   \<and> fst (processSpots ns cfg (e\<lparr>synthesize := f\<rparr>) known spots)
       = fst (processSpots ns cfg e known spots)"
proof -
  have one: "speakLoop e target i (s # rest)
        = SynthesisRequested s # SynthesisErrorLogged err # speakLoop e target (Suc i) rest"
    if "synthesize e i = SynthFail err"
    using that by simp
  have all: "filter isSynthesisRequested (speakMultipleSpotsWithVoicevox e queue en target)
          = map SynthesisRequested (spotsToRead (voicevox e) queue)"
    if a: "en \<and> \<not> noSpeaker (voicevox e)
        \<and> (\<forall>j < length (spotsToRead (voicevox e) queue).
              (\<exists>err. synthesize e j = SynthFail err) \<or> playback e j)"
  proof (cases "queue = []")
    case True
    then show ?thesis by (simp add: speakMultipleSpotsWithVoicevox_def spotsToRead_def)
  next
    case False
    then have "speakMultipleSpotsWithVoicevox e queue en target
        = speakLoop e target 0 (spotsToRead (voicevox e) queue)"
      using a by (simp add: speakMultipleSpotsWithVoicevox_def)
    then show ?thesis
      using a speakLoop_all_requested [of "spotsToRead (voicevox e) queue" e 0 target] by simp
  qed
  have d: "dispatch cfg (e\<lparr>synthesize := f\<rparr>) fs = dispatch cfg e fs" for fs
    by (simp add: dispatch_def)
  have "filter (\<lambda>x. \<not> isSpeech x) (concat (map (perform ns cfg (e\<lparr>synthesize := f\<rparr>)) cs))
      = filter (\<lambda>x. \<not> isSpeech x) (concat (map (perform ns cfg e) cs))" for cs
    by (induction cs) (simp_all add: perform_without_speech)
  then have others:
    "filter (\<lambda>x. \<not> isSpeech x) (snd (processSpots ns cfg (e\<lparr>synthesize := f\<rparr>) known spots))
       = filter (\<lambda>x. \<not> isSpeech x) (snd (processSpots ns cfg e known spots))"
    by (simp add: snd_processSpots d)
  have idx: "fst (processSpots ns cfg (e\<lparr>synthesize := f\<rparr>) known spots)
       = fst (processSpots ns cfg e known spots)"
    by (simp add: fst_processSpots)
  show ?thesis using one all others idx by blast
qed

theorem synthesis_failure_skipped_witness:
  "speakMultipleSpotsWithVoicevox sampleEnv (map spotWithId [1, 2, 3]) True True
     = [SynthesisRequested (spotWithId 1), VoicePlayed (spotWithId 1),
        SynthesisRequested (spotWithId 2), SynthesisErrorLogged ''Request timeout'',
        SynthesisRequested (spotWithId 3), VoicePlayed (spotWithId 3)]
   \<and> filter isSynthesisRequested
        (speakMultipleSpotsWithVoicevox sampleEnv (map spotWithId [1, 2, 3]) True True)
     = map SynthesisRequested (map spotWithId [1, 2, 3])"
proof -
  have f: "synthesize sampleEnv 1 = SynthFail ''Request timeout''"
    by (simp add: sampleEnv_def)
  have ok: "synthesize sampleEnv 0 = SynthOk ''UklGRg==''
      \<and> synthesize sampleEnv 2 = SynthOk ''UklGRg==''
      \<and> playback sampleEnv 0 \<and> playback sampleEnv 2"
    by (simp add: sampleEnv_def)
  have q: "spotsToRead (voicevox sampleEnv) (map spotWithId [1, 2, 3]) = map spotWithId [1, 2, 3]"
    by (simp add: spotsToRead_def sampleEnv_def)
  have pb: "True \<and> \<not> noSpeaker (voicevox sampleEnv)
      \<and> (\<forall>j < length (spotsToRead (voicevox sampleEnv) (map spotWithId [1, 2, 3])).
            (\<exists>err. synthesize sampleEnv j = SynthFail err) \<or> playback sampleEnv j)"
    by (simp add: sampleEnv_def noSpeaker_def)
  have step: "speakLoop sampleEnv True 1 (spotWithId 2 # [spotWithId 3])
      = SynthesisRequested (spotWithId 2) # SynthesisErrorLogged ''Request timeout''
        # speakLoop sampleEnv True (Suc 1) [spotWithId 3]"
    using synthesis_failure_skipped
      [of sampleEnv 1 "''Request timeout''" True "spotWithId 2" "[spotWithId 3]"] f
    by blast
  have all: "filter isSynthesisRequested
        (speakMultipleSpotsWithVoicevox sampleEnv (map spotWithId [1, 2, 3]) True True)
     = map SynthesisRequested (spotsToRead (voicevox sampleEnv) (map spotWithId [1, 2, 3]))"
    using synthesis_failure_skipped [of sampleEnv _ _ True _ _ True "map spotWithId [1, 2, 3]"] pb
    by blast
  have "speakMultipleSpotsWithVoicevox sampleEnv (map spotWithId [1, 2, 3]) True True
     = speakLoop sampleEnv True 0 (map spotWithId [1, 2, 3])"
    using pb q by (simp add: speakMultipleSpotsWithVoicevox_def)
  moreover have "speakLoop sampleEnv True 0 (map spotWithId [1, 2, 3])
     = SynthesisRequested (spotWithId 1) # VoicePlayed (spotWithId 1)
       # speakLoop sampleEnv True 1 (spotWithId 2 # [spotWithId 3])"
    using ok by simp
  moreover have "speakLoop sampleEnv True (Suc 1) [spotWithId 3]
     = [SynthesisRequested (spotWithId 3), VoicePlayed (spotWithId 3)]"
    using ok by (simp add: numeral_2_eq_2)
  ultimately show ?thesis using step all q by simp
qed


section \<open>Known identities and evicted ones\<close>

lemma fullFeed_ids: "map spotId fullFeed = [0..1000]"
  by (simp add: fullFeed_def spotWithId_def o_def)

lemma fullFeed_Cons: "fullFeed = spotWithId 0 # map spotWithId [1..1000]"
  unfolding fullFeed_def by (subst upto_rec1) simp_all

lemma fullFeed_first_scan:
  "scanSpots (Some defaultConfig) fullFeed ([], []) = ([0..1000], fullFeed)"
proof -
  have "distinct (map spotId fullFeed)" unfolding fullFeed_ids by simp
  then have "firstSightings [] fullFeed = fullFeed"
    by (rule firstSightings_fresh) simp
  then show ?thesis
    using scanSpots_exact [of "Some defaultConfig" fullFeed "[]" "[]"]
    by (simp add: fullFeed_ids defaultConfig_accepts)
qed

lemma fullFeed_second_scan:
  "scanSpots (Some defaultConfig) fullFeed ([1..1000], []) = ([1..1000] @ [0], [spotWithId 0])"
proof -
  have id0: "spotId (spotWithId 0) = 0" by (simp add: spotWithId_def)
  have "\<forall>s \<in> set (map spotWithId [1..1000]). spotId s \<in> set ([1..1000] @ [0])"
    by (simp add: spotWithId_def)
  then have "firstSightings ([1..1000] @ [0]) (map spotWithId [1..1000]) = []"
    by (rule firstSightings_known)
  moreover have "(0::int) \<notin> set [1..1000]" by simp
  ultimately have "firstSightings [1..1000] fullFeed = [spotWithId 0]"
    unfolding fullFeed_Cons by (simp only: firstSightings_Cons id0 if_False)
  then show ?thesis
    using scanSpots_exact [of "Some defaultConfig" fullFeed "[1..1000]" "[]"]
    by (simp only: id0 list.map append_Nil filter.simps defaultConfig_accepts) simp
qed

text \<open>
  Claim C2, as stated, fails: an identity stays in the index only until the bound of 1000
  evicts it. A feed of 1001 accepted records, polled twice: the first poll adds identity 0
  and notifies its record, and leaves the index without identity 0; the second poll adds
  identity 0 again and notifies the same record again.
\<close>

theorem evicted_identity_redispatched:
  "fst (scanSpots (Some defaultConfig) fullFeed ([], [])) = [0..1000]
   \<and> NotificationShown (spotWithId 0)
        \<in> set (snd (processSpots allEnabled (Some defaultConfig) sampleEnv [] fullFeed))
   \<and> fst (processSpots allEnabled (Some defaultConfig) sampleEnv [] fullFeed) = [1..1000]
   \<and> scanSpots (Some defaultConfig) fullFeed ([1..1000], []) = ([1..1000] @ [0], [spotWithId 0])
   \<and> filter isNotificationShown
        (snd (processSpots allEnabled (Some defaultConfig) sampleEnv [1..1000] fullFeed))
       = [NotificationShown (spotWithId 0)]"
proof -
  have ne: "fullFeed \<noteq> []" by (simp add: fullFeed_Cons)
  have mem: "spotWithId 0 \<in> set fullFeed" by (simp add: fullFeed_Cons)
  have all: "notificationSpots (Some defaultConfig) fullFeed = fullFeed"
    by (simp add: notificationSpots_def defaultConfig_def)
  have one: "showNotification allEnabled sampleEnv s = [NotificationShown s]" for s
    by (simp add: showNotification_def allEnabled_def sampleEnv_def)
  have "snd (processSpots allEnabled (Some defaultConfig) sampleEnv [] fullFeed)
      = handleNotificationSound allEnabled (Some defaultConfig) sampleEnv
        @ concat (map (showNotification allEnabled sampleEnv) fullFeed)
        @ concat (map (showPopupNotification allEnabled) (popupSpots (Some defaultConfig) fullFeed))
        @ (if audioTarget sampleEnv
           then speakMultipleSpotsWithVoicevox sampleEnv fullFeed (voicevoxEnabled allEnabled)
             (audioTarget sampleEnv)
           else [])"
    using effects_split [OF ne, of allEnabled "Some defaultConfig" sampleEnv]
    by (simp only: snd_processSpots fullFeed_first_scan snd_conv all)
  moreover have "NotificationShown (spotWithId 0)
      \<in> set (concat (map (showNotification allEnabled sampleEnv) fullFeed))"
    using mem by (auto simp: one)
  ultimately have first: "NotificationShown (spotWithId 0)
        \<in> set (snd (processSpots allEnabled (Some defaultConfig) sampleEnv [] fullFeed))"
    by simp
  have len: "length [0..1000::int] = 1001" by simp
  have "evict [0..1000] = tl [0..1000]"
    using len by (simp only: evict_def) (simp add: drop_Suc)
  also have "tl [0..1000::int] = [1..1000]"
    by (subst upto_rec1) simp_all
  finally have idx: "fst (processSpots allEnabled (Some defaultConfig) sampleEnv [] fullFeed) = [1..1000]"
    by (simp only: fst_processSpots fullFeed_first_scan fst_conv)
  have "filter isNotificationShown
        (concat (map (perform allEnabled (Some defaultConfig) sampleEnv)
           (dispatch (Some defaultConfig) sampleEnv [spotWithId 0])))
       = [NotificationShown (spotWithId 0)]"
    by code_simp
  then have again: "filter isNotificationShown
        (snd (processSpots allEnabled (Some defaultConfig) sampleEnv [1..1000] fullFeed))
       = [NotificationShown (spotWithId 0)]"
    by (simp only: snd_processSpots fullFeed_second_scan snd_conv)
  show ?thesis
    using first idx again
    by (simp only: fullFeed_first_scan fullFeed_second_scan fst_conv simp_thms)
qed

text \<open>
  Claim C2, amended. In a batch, the records that are evaluated against the filter are
  exactly the first sightings: those whose identity is not in the index when the batch
  starts and has not occurred earlier in the batch. Their identities are appended to the
  index, once each and whatever the filter says, and the accepted ones among them, in batch
  order, are all that is dispatched. A record whose identity is in the index is skipped:
  the batch without such records has the same index and the same effects, and a batch of
  known identities has no effect. An identity that the bound of 1000 has evicted is not
  in the index, and is a first sighting when it comes again.
\<close>

theorem first_sightings_only:
  assumes "distinct known"
  shows "scanSpots cfg spots (known, [])
       = (known @ map spotId (firstSightings known spots),
          filter (\<lambda>s. cfg \<noteq> None \<and> applyFilter s cfg) (firstSightings known spots))
     \<and> processSpots ns cfg e known spots
       = (evict (known @ map spotId (firstSightings known spots)),
          concat (map (perform ns cfg e)
            (dispatch cfg e
               (filter (\<lambda>s. cfg \<noteq> None \<and> applyFilter s cfg) (firstSightings known spots)))))
     \<and> fst (scanSpots cfg spots (known, [])) = fst (scanSpots cfg' spots (known, []))
     \<and> distinct (known @ map spotId (firstSightings known spots))
     \<and> set (known @ map spotId (firstSightings known spots)) = set known \<union> spotId ` set spots
     \<and> (\<forall>s \<in> set (firstSightings known spots). s \<in> set spots \<and> spotId s \<notin> set known)
     \<and> processSpots ns cfg e known spots
         = processSpots ns cfg e known (filter (\<lambda>s. spotId s \<notin> set known) spots)
     \<and> ((\<forall>s \<in> set spots. spotId s \<in> set known) \<longrightarrow>
           processSpots ns cfg e known spots = (evict known, []))
     \<and> (length (known @ map spotId (firstSightings known spots)) \<le> 1000 \<longrightarrow>
           fst (processSpots ns cfg e known spots) = known @ map spotId (firstSightings known spots))"
proof -
  have scan: "scanSpots cfg spots (known, [])
       = (known @ map spotId (firstSightings known spots),
          filter (\<lambda>s. cfg \<noteq> None \<and> applyFilter s cfg) (firstSightings known spots))"
    using scanSpots_exact [of cfg spots known "[]"] by simp
  have whole: "processSpots ns cfg e known spots
       = (evict (known @ map spotId (firstSightings known spots)),
          concat (map (perform ns cfg e)
            (dispatch cfg e
               (filter (\<lambda>s. cfg \<noteq> None \<and> applyFilter s cfg) (firstSightings known spots)))))"
    by (simp add: processSpots_def scan)
  have dist: "distinct (known @ map spotId (firstSightings known spots))"
    using scanSpots_distinct [OF assms, of cfg spots "[]"] by (simp only: scan fst_conv)
  have ids: "set (known @ map spotId (firstSightings known spots)) = set known \<union> spotId ` set spots"
    using scanSpots_set [of cfg spots known "[]"] by (simp only: scan fst_conv)
  have new: "\<forall>s \<in> set (firstSightings known spots). s \<in> set spots \<and> spotId s \<notin> set known"
    using firstSightings_new by blast
  have skip: "processSpots ns cfg e known spots
         = processSpots ns cfg e known (filter (\<lambda>s. spotId s \<notin> set known) spots)"
    unfolding processSpots_def using scanSpots_skip [of cfg spots known "[]"] by simp
  have allknown: "processSpots ns cfg e known spots = (evict known, [])"
    if "\<forall>s \<in> set spots. spotId s \<in> set known"
    using that by (simp add: whole firstSightings_known dispatch_def)
  have kept: "fst (processSpots ns cfg e known spots) = known @ map spotId (firstSightings known spots)"
    if "length (known @ map spotId (firstSightings known spots)) \<le> 1000"
    using that by (simp only: whole fst_conv evict_idem)
  have indep: "fst (scanSpots cfg spots (known, [])) = fst (scanSpots cfg' spots (known, []))"
    by (rule scanSpots_fst_indep)
  show ?thesis
    using scan whole indep dist ids new skip allknown kept by blast
qed

text \<open>
  Identity 1 is known. A rejected record with identity 2 is followed by a record with the
  same identity that the filter would accept: it stays out.
\<close>

theorem first_sightings_only_witness:
  "scanSpots (Some rejectAllConfig) [cwSpot, cwSpot2, ssbSpot2] ([1], []) = ([1, 2], [])
   \<and> applyFilter ssbSpot2 (Some rejectAllConfig)
   \<and> scanSpots (Some defaultConfig) [cwSpot, cwSpot2, ssbSpot2] ([1], []) = ([1, 2], [cwSpot2])
   \<and> processSpots allEnabled (Some defaultConfig) sampleEnv [1] [cwSpot, cwSpot] = ([1], [])"
proof -
  have d: "distinct [1::int]" by simp
  have fs: "firstSightings [1] [cwSpot, cwSpot2, ssbSpot2] = [cwSpot2]" by code_simp
  have rej: "filter (\<lambda>s. Some rejectAllConfig \<noteq> None \<and> applyFilter s (Some rejectAllConfig)) [cwSpot2] = []"
    by code_simp
  have acc: "filter (\<lambda>s. Some defaultConfig \<noteq> None \<and> applyFilter s (Some defaultConfig)) [cwSpot2]
      = [cwSpot2]"
    by (simp add: defaultConfig_accepts)
  have ssb: "applyFilter ssbSpot2 (Some rejectAllConfig)" by code_simp
  have id2: "map spotId [cwSpot2] = [2]" by (simp add: cwSpot2_def)
  have k: "\<forall>s \<in> set [cwSpot, cwSpot]. spotId s \<in> set [1]" by (simp add: cwSpot_def)
  have ev: "evict [1] = [1]" by (simp add: evict_def)
  have a: "scanSpots (Some rejectAllConfig) [cwSpot, cwSpot2, ssbSpot2] ([1], []) = ([1, 2], [])"
    using first_sightings_only [OF d, of "Some rejectAllConfig" "[cwSpot, cwSpot2, ssbSpot2]"
        allEnabled sampleEnv None]
    by (simp only: fs rej id2) simp
  have b: "scanSpots (Some defaultConfig) [cwSpot, cwSpot2, ssbSpot2] ([1], []) = ([1, 2], [cwSpot2])"
    using first_sightings_only [OF d, of "Some defaultConfig" "[cwSpot, cwSpot2, ssbSpot2]"
        allEnabled sampleEnv None]
    by (simp only: fs acc id2) simp
  have c: "processSpots allEnabled (Some defaultConfig) sampleEnv [1] [cwSpot, cwSpot] = (evict [1], [])"
    using first_sightings_only [OF d, of "Some defaultConfig" "[cwSpot, cwSpot]" allEnabled sampleEnv None] k
    by blast
  show ?thesis using a b c ssb ev by simp
qed

end
